theory Spec2Isabelle
  imports Main "HOL-Library.Multiset"
begin

section \<open>Strings as the tokenizer sees them\<close>

text \<open>
  A Python \<open>str\<close> is a sequence of code points. The model uses \<open>string\<close> and reads each
  \<open>char\<close> as the code point of the same number, U+0000 to U+00FF. On that range
  \<open>str.lower\<close> maps one character to one character and \<open>str.split()\<close> separates at
  the twelve characters for which \<open>str.isspace\<close> holds.
\<close>

text \<open>The character class of the pattern \<^verbatim>\<open>[.,':;!?]\<close> of \<open>Document.tokenize\<close>.\<close>

definition punctuation :: "char set" where
  "punctuation =
     {CHR ''.'', CHR '','', CHR 0x27, CHR '':'', CHR '';'', CHR ''!'', CHR ''?''}"

text \<open>\<^verbatim>\<open>re.sub(r"[.,':;!?]", "", line)\<close>: every character of the class is deleted.\<close>

definition re_sub_punctuation :: "string \<Rightarrow> string" where
  "re_sub_punctuation line = filter (\<lambda>c. c \<notin> punctuation) line"

text \<open>
  \<open>str.lower\<close> on one character: A to Z, and the capital letters U+00C0 to U+00DE
  without the multiplication sign U+00D7, move up by 32; everything else stays.
\<close>

definition lower_char :: "char \<Rightarrow> char" where
  "lower_char c =
     (let n = (of_char c :: nat)
      in if (65 \<le> n \<and> n \<le> 90) \<or> (192 \<le> n \<and> n \<le> 222 \<and> n \<noteq> 215)
         then char_of (n + 32) else c)"

definition lower :: "string \<Rightarrow> string" where
  "lower s = map lower_char s"

text \<open>
  \<open>str.isspace\<close> on one character: tab to carriage return, the four separators
  U+001C to U+001F, the space, U+0085 and U+00A0.
\<close>

definition isspace :: "char \<Rightarrow> bool" where
  "isspace c =
     (let n = (of_char c :: nat)
      in (9 \<le> n \<and> n \<le> 13) \<or> (28 \<le> n \<and> n \<le> 32) \<or> n = 133 \<or> n = 160)"

text \<open>
  \<open>str.split()\<close> without arguments: maximal runs of non-space characters, in order;
  runs of spaces separate and never yield an empty word. \<open>word\<close> is the run being read.
\<close>

fun split_from :: "string \<Rightarrow> string \<Rightarrow> string list" where
  "split_from word [] = (if word = [] then [] else [word])"
| "split_from word (c # cs) =
     (if isspace c
      then (if word = [] then split_from [] cs else word # split_from [] cs)
      else split_from (word @ [c]) cs)"

definition split :: "string \<Rightarrow> string list" where
  "split s = split_from [] s"

section \<open>Documents, sonnets and queries\<close>

text \<open>
  \<open>class Document\<close> holds \<open>lines\<close>; \<open>class Sonnet(Document)\<close> adds \<open>id\<close> and
  \<open>title\<close>; \<open>class Query(Document)\<close> adds nothing. The record extension mirrors the
  inheritance, so \<open>tokenize\<close> below serves both. A sonnet is taken as constructed:
  \<open>Sonnet.__init__\<close> reads id and title out of the record's title string, which no
  property below depends on.
\<close>

record document =
  lines :: "string list"

record sonnet = document +
  sonnet_id :: int
  title :: string

text \<open>\<open>Query.__init__\<close>: \<^verbatim>\<open>super().__init__([query])\<close>.\<close>

definition Query :: "string \<Rightarrow> document" where
  "Query query = \<lparr>lines = [query]\<rparr>"

text \<open>
  \<open>Document.tokenize\<close>. The Porter stemmer is imported from a module outside this
  repository, so \<open>stem\<close> is a parameter, called as the source calls it:
  \<^verbatim>\<open>self.stemmer.stem(token, 0, len(token) - 1)\<close>.
\<close>

definition tokenize ::
  "(string \<Rightarrow> int \<Rightarrow> int \<Rightarrow> string) \<Rightarrow> 'a document_scheme \<Rightarrow> bool \<Rightarrow> string list" where
  "tokenize stem self use_stemming =
     (let tokens =
            fold (\<lambda>line tokens. tokens @ split (lower (re_sub_punctuation line)))
              (lines self) []
      in if use_stemming
         then map (\<lambda>token. stem token 0 (int (length token) - 1)) tokens
         else tokens)"

section \<open>The inverted index\<close>

text \<open>
  \<open>class Index(dict[str, set[int]])\<close>: the dictionary itself is the field \<open>dict\<close>, the
  attribute \<open>self.documents\<close> the field \<open>documents\<close>.
\<close>

record index =
  dict :: "string \<Rightarrow> int set option"
  documents :: "sonnet list"

text \<open>
  \<open>Index.add\<close>: for each token, create the empty posting set when the key is new, then
  add the document's id to the posting set. \<open>add_token\<close> is the body of the loop; its
  lookup \<^verbatim>\<open>self[token]\<close> comes after the key was created, so the branch \<open>None\<close> of
  the case is never taken.
\<close>

definition add_token :: "int \<Rightarrow> string \<Rightarrow> index \<Rightarrow> index" where
  "add_token i token self =
     (let self1 = (if dict self token = None
                   then self\<lparr>dict := (dict self)(token \<mapsto> {})\<rparr> else self)
      in case dict self1 token of
           Some s \<Rightarrow> self1\<lparr>dict := (dict self1)(token \<mapsto> insert i s)\<rparr>
         | None \<Rightarrow> self1)"

definition add :: "(string \<Rightarrow> int \<Rightarrow> int \<Rightarrow> string) \<Rightarrow> sonnet \<Rightarrow> index \<Rightarrow> index" where
  "add stem document self =
     fold (add_token (sonnet_id document)) (tokenize stem document True) self"

text \<open>\<open>Index.__init__\<close>: an empty dictionary, the collection kept, every document added.\<close>

definition Index :: "(string \<Rightarrow> int \<Rightarrow> int \<Rightarrow> string) \<Rightarrow> sonnet list \<Rightarrow> index" where
  "Index stem docs = fold (add stem) docs \<lparr>dict = Map.empty, documents = docs\<rparr>"

section \<open>Search\<close>

datatype error = TypeError

text \<open>
  \<^verbatim>\<open>set.intersection(*sets)\<close>: the first set intersected with all the others; with no
  argument at all the call raises \<open>TypeError\<close>.
\<close>

fun set_intersection :: "int set list \<Rightarrow> error + int set" where
  "set_intersection [] = Inl TypeError"
| "set_intersection (s # ss) = Inr (fold (\<lambda>t acc. acc \<inter> t) ss s)"

text \<open>
  \<open>Index.search\<close>, with the index threaded through: the result is the returned list (or
  the exception raised) together with the index as the call leaves it.
\<close>

definition search ::
  "(string \<Rightarrow> int \<Rightarrow> int \<Rightarrow> string) \<Rightarrow> index \<Rightarrow> 'a document_scheme
     \<Rightarrow> (error + sonnet list) \<times> index" where
  "search stem self query =
     (let query_tokens = tokenize stem query True
      in if query_tokens = [] then (Inr [], self)
         else
           let relevant_tokens = List.map_filter (dict self) query_tokens
           in if relevant_tokens = [] then (Inr [], self)
              else if length relevant_tokens < length query_tokens then (Inr [], self)
              else
                case set_intersection relevant_tokens of
                  Inl e \<Rightarrow> (Inl e, self)
                | Inr matching_ids \<Rightarrow>
                    (Inr (sort_key sonnet_id
                            (filter (\<lambda>doc. sonnet_id doc \<in> matching_ids) (documents self))),
                     self))"


section \<open>Properties of the tokenizer\<close>

text \<open>The loop of \<open>tokenize\<close> appends the words of each line, in line order.\<close>

lemma fold_extend:
  "fold (\<lambda>line tokens. tokens @ f line) ls acc = acc @ concat (map f ls)"
  by (induction ls arbitrary: acc) simp_all

lemma tokenize_unstemmed:
  "tokenize stem self False = concat (map (\<lambda>line. split (lower (re_sub_punctuation line))) (lines self))"
  by (simp add: tokenize_def fold_extend)

lemma tokenize_stemmed:
  "tokenize stem self True =
     map (\<lambda>token. stem token 0 (int (length token) - 1)) (tokenize stem self False)"
  by (simp add: tokenize_def)

lemma split_from_chars:
  "t \<in> set (split_from word s) \<Longrightarrow> set t \<subseteq> set word \<union> set s"
proof (induction s arbitrary: word)
  case Nil
  then show ?case by (simp split: if_splits)
next
  case (Cons c cs)
  show ?case
  proof (cases "isspace c")
    case True
    with Cons.prems have "t = word \<or> t \<in> set (split_from [] cs)"
      by (auto split: if_splits)
    then show ?thesis
    proof
      assume "t = word"
      then show ?thesis by auto
    next
      assume "t \<in> set (split_from [] cs)"
      from Cons.IH [OF this] show ?thesis by auto
    qed
  next
    case False
    with Cons.prems have "t \<in> set (split_from (word @ [c]) cs)" by simp
    from Cons.IH [OF this] show ?thesis by auto
  qed
qed

lemma split_chars: "t \<in> set (split s) \<Longrightarrow> set t \<subseteq> set s"
  using split_from_chars [of t "[]" s] by (simp add: split_def)

lemma split_from_nonempty:
  "t \<in> set (split_from word s) \<Longrightarrow> t \<noteq> []"
  by (induction s arbitrary: word) (auto split: if_splits)

lemma of_char_lower_char:
  "(of_char (lower_char c) :: nat) =
     (let n = of_char c
      in if (65 \<le> n \<and> n \<le> 90) \<or> (192 \<le> n \<and> n \<le> 222 \<and> n \<noteq> 215) then n + 32 else n)"
proof -
  have "(of_char c :: nat) < 256" by simp
  then show ?thesis
    by (simp add: lower_char_def Let_def)
qed

lemma lower_char_idem: "lower_char (lower_char c) = lower_char c"
proof -
  have "(of_char (lower_char (lower_char c)) :: nat) = of_char (lower_char c)"
    by (simp add: of_char_lower_char Let_def)
  then show ?thesis by (simp only: of_char_eq_iff)
qed

lemma of_char_punctuation: "p \<in> punctuation \<Longrightarrow> (of_char p :: nat) < 65"
  by (auto simp: punctuation_def)

lemma lower_char_punctuation:
  assumes "c \<notin> punctuation"
  shows "lower_char c \<notin> punctuation"
proof
  assume p: "lower_char c \<in> punctuation"
  then have "(of_char (lower_char c) :: nat) < 65" by (rule of_char_punctuation)
  then have "(of_char (lower_char c) :: nat) = of_char c"
    by (simp add: of_char_lower_char Let_def split: if_splits)
  then have "lower_char c = c" by (simp only: of_char_eq_iff)
  with p assms show False by simp
qed

lemma lower_idem: "lower (lower s) = lower s"
  by (simp add: lower_def lower_char_idem)

lemma lower_no_punctuation: "set s \<inter> punctuation = {} \<Longrightarrow> set (lower s) \<inter> punctuation = {}"
  using lower_char_punctuation by (auto simp: lower_def)

lemma re_sub_no_punctuation: "set (re_sub_punctuation line) \<inter> punctuation = {}"
  by (auto simp: re_sub_punctuation_def)

lemma lower_subword:
  assumes "set t \<subseteq> set (lower s)"
  shows "lower t = t"
proof -
  have "lower_char c = c" if "c \<in> set t" for c
  proof -
    from that assms obtain d where "c = lower_char d" by (auto simp: lower_def)
    then show ?thesis by (simp add: lower_char_idem)
  qed
  then show ?thesis by (simp add: lower_def map_idI)
qed

lemma split_clean:
  assumes "t \<in> set (split (lower (re_sub_punctuation line)))"
  shows "lower t = t \<and> set t \<inter> punctuation = {}"
proof -
  from assms have sub: "set t \<subseteq> set (lower (re_sub_punctuation line))" by (rule split_chars)
  have "set (lower (re_sub_punctuation line)) \<inter> punctuation = {}"
    by (rule lower_no_punctuation) (rule re_sub_no_punctuation)
  with sub have "set t \<inter> punctuation = {}" by blast
  with sub show ?thesis by (simp add: lower_subword)
qed

lemma tokenize_unstemmed_clean:
  assumes "t \<in> set (tokenize stem self False)"
  shows "lower t = t \<and> set t \<inter> punctuation = {}"
proof -
  from assms obtain line where "t \<in> set (split (lower (re_sub_punctuation line)))"
    by (auto simp: tokenize_unstemmed)
  then show ?thesis by (rule split_clean)
qed

text \<open>The equations that evaluate the tokenizer on a literal.\<close>

lemmas tok_eval = tokenize_def split_def lower_def lower_char_def re_sub_punctuation_def
  punctuation_def isspace_def char_of_eq_iff

text \<open>
  C6 (as amended). \<open>tokenize\<close> is a function of its input, so two runs agree. Every token
  it produces is unchanged by \<open>lower\<close> and has no character of the punctuation class:
  without stemming for every input, and with stemming whenever the stemmer (which is not
  part of this repository) keeps such words so. Tokenizing the line \<^verbatim>\<open>Love's the king!\<close>
  without stemming yields \<open>loves\<close>, \<open>the\<close>, \<open>king\<close>: deleting the apostrophe joins the
  \<open>s\<close> to the word.
\<close>

theorem tokenize_lowercase_punctuation_free:
  assumes "use_stemming \<Longrightarrow>
     \<forall>w i j. lower w = w \<and> set w \<inter> punctuation = {} \<longrightarrow>
       lower (stem w i j) = stem w i j \<and> set (stem w i j) \<inter> punctuation = {}"
  shows "(\<forall>t\<in>set (tokenize stem self use_stemming). lower t = t \<and> set t \<inter> punctuation = {})
    \<and> tokenize stem \<lparr>lines = [''Love's the king!'']\<rparr> False = [''loves'', ''the'', ''king'']"
proof (rule conjI, rule ballI)
  fix t
  assume t: "t \<in> set (tokenize stem self use_stemming)"
  show "lower t = t \<and> set t \<inter> punctuation = {}"
  proof (cases use_stemming)
    case False
    with t show ?thesis using tokenize_unstemmed_clean [of t stem self] by simp
  next
    case True
    with t obtain w where w: "w \<in> set (tokenize stem self False)"
      and tw: "t = stem w 0 (int (length w) - 1)"
      by (auto simp: tokenize_stemmed)
    from w have "lower w = w \<and> set w \<inter> punctuation = {}" by (rule tokenize_unstemmed_clean)
    with assms [OF True] tw show ?thesis by blast
  qed
next
  show "tokenize stem \<lparr>lines = [''Love's the king!'']\<rparr> False = [''loves'', ''the'', ''king'']"
    by (simp add: tok_eval)
qed

text \<open>
  The theorem at the line \<^verbatim>\<open>Love's the king!\<close>, stemming enabled, with a stemmer that
  maps \<open>loves\<close> to \<open>love\<close> and leaves every other word alone.
\<close>

theorem tokenize_lowercase_punctuation_free_witness:
  "tokenize (\<lambda>w i j. if w = ''loves'' then ''love'' else w) \<lparr>lines = [''Love's the king!'']\<rparr> True
     = [''love'', ''the'', ''king'']
   \<and> lower ''love'' = ''love'' \<and> set ''love'' \<inter> punctuation = {}
   \<and> tokenize (\<lambda>w i j. if w = ''loves'' then ''love'' else w) \<lparr>lines = [''Love's the king!'']\<rparr> False
     = [''loves'', ''the'', ''king'']"
proof -
  have h: "\<forall>w (i::int) (j::int). lower w = w \<and> set w \<inter> punctuation = {} \<longrightarrow>
       lower (if w = ''loves'' then ''love'' else w) = (if w = ''loves'' then ''love'' else w)
       \<and> set (if w = ''loves'' then ''love'' else w) \<inter> punctuation = {}"
    by (simp add: lower_def lower_char_def punctuation_def)
  have "tokenize (\<lambda>w i j. if w = ''loves'' then ''love'' else w) \<lparr>lines = [''Love's the king!'']\<rparr> True
     = [''love'', ''the'', ''king'']"
    by (simp add: tok_eval)
  with tokenize_lowercase_punctuation_free
         [of True "\<lambda>w i j. if w = ''loves'' then ''love'' else w"
            "\<lparr>lines = [''Love's the king!'']\<rparr>", OF h]
  show ?thesis by simp
qed

text \<open>
  The example of C6 as the claim words it: the unstemmed tokens of \<^verbatim>\<open>Love's the king!\<close>
  are not \<open>love\<close>, \<open>the\<close>, \<open>king\<close>.
\<close>

theorem tokenize_example_counterexample:
  "tokenize (\<lambda>w i j. w) \<lparr>lines = [''Love's the king!'']\<rparr> False \<noteq> [''love'', ''the'', ''king'']"
  by (simp add: tok_eval)

text \<open>
  C8. \<open>Query s\<close> has exactly the one line \<open>s\<close>, and \<open>tokenize\<close> treats it as it
  treats a sonnet with that single line, whatever the sonnet's id and title.
\<close>

theorem Query_lines:
  "lines (Query s) = [s]
   \<and> tokenize stem (Query s) use_stemming
       = tokenize stem \<lparr>lines = [s], sonnet_id = i, title = t\<rparr> use_stemming"
  by (simp add: Query_def tokenize_def)



section \<open>Properties of the index\<close>

text \<open>
  One step of \<open>Index.add\<close> puts the id into the token's posting set and touches no
  other key, nor the retained collection.
\<close>

lemma dict_add_token:
  "dict (add_token i token self) =
     (dict self)(token \<mapsto> insert i (case dict self token of None \<Rightarrow> {} | Some s \<Rightarrow> s))"
  by (cases "dict self token") (simp_all add: add_token_def)

lemma documents_add_token: "documents (add_token i token self) = documents self"
  by (cases "dict self token") (simp_all add: add_token_def)

lemma documents_fold_add_token: "documents (fold (add_token i) ts self) = documents self"
  by (induction ts arbitrary: self) (simp_all add: documents_add_token)

lemma dict_fold_add_token:
  "dict (fold (add_token i) ts self) t =
     (if t \<in> set ts
      then Some (insert i (case dict self t of None \<Rightarrow> {} | Some s \<Rightarrow> s))
      else dict self t)"
proof (induction ts arbitrary: self)
  case Nil
  show ?case by simp
next
  case (Cons a ts)
  show ?case
    by (simp add: Cons.IH dict_add_token)
qed

lemma documents_add: "documents (add stem d self) = documents self"
  by (simp add: add_def documents_fold_add_token)

lemma dict_add:
  "dict (add stem d self) t =
     (if t \<in> set (tokenize stem d True)
      then Some (insert (sonnet_id d) (case dict self t of None \<Rightarrow> {} | Some s \<Rightarrow> s))
      else dict self t)"
  by (simp add: add_def dict_fold_add_token)

lemma documents_fold_add: "documents (fold (add stem) docs self) = documents self"
  by (induction docs arbitrary: self) (simp_all add: documents_add)

text \<open>
  The dictionary after adding a list of documents: a token produced by none of them keeps
  its entry; any other token maps to the ids of the documents producing it, joined with
  what was there before.
\<close>

lemma dict_fold_add:
  "dict (fold (add stem) docs self) t =
     (if \<exists>d\<in>set docs. t \<in> set (tokenize stem d True)
      then Some (sonnet_id ` {d \<in> set docs. t \<in> set (tokenize stem d True)}
                 \<union> (case dict self t of None \<Rightarrow> {} | Some s \<Rightarrow> s))
      else dict self t)"
proof (induction docs arbitrary: self)
  case Nil
  show ?case by simp
next
  case (Cons a docs)
  show ?case
    by (auto simp: Cons.IH dict_add split: option.splits)
qed

lemma documents_Index: "documents (Index stem docs) = docs"
  by (simp add: Index_def documents_fold_add)

lemma dict_Index:
  "dict (Index stem docs) t =
     (if \<exists>d\<in>set docs. t \<in> set (tokenize stem d True)
      then Some (sonnet_id ` {d \<in> set docs. t \<in> set (tokenize stem d True)})
      else None)"
  by (simp add: Index_def dict_fold_add)

section \<open>Properties of search\<close>

text \<open>The posting sets found are fewer than the query tokens once one token is no key.\<close>

lemma length_map_filter_less:
  "x \<in> set xs \<Longrightarrow> f x = None \<Longrightarrow> length (List.map_filter f xs) < length xs"
  by (simp add: List.map_filter_def length_filter_less)

lemma map_filter_all_present:
  "\<forall>x\<in>set xs. f x \<noteq> None \<Longrightarrow> List.map_filter f xs = map (\<lambda>x. the (f x)) xs"
  by (induction xs) (auto simp: List.map_filter_def)

text \<open>With at least one argument \<open>set.intersection\<close> returns the intersection of all.\<close>

lemma fold_inter: "fold (\<lambda>t acc. acc \<inter> t) ss s = s \<inter> \<Inter> (set ss)"
  by (induction ss arbitrary: s) auto

lemma set_intersection_nonempty:
  "ss \<noteq> [] \<Longrightarrow> set_intersection ss = Inr (\<Inter> (set ss))"
  by (cases ss) (simp_all add: fold_inter)

text \<open>The two ways \<open>search\<close> can go for a query that has tokens.\<close>

lemma search_missing:
  assumes "t \<in> set (tokenize stem query True)" and "dict self t = None"
  shows "search stem self query = (Inr [], self)"
proof -
  from assms have "length (List.map_filter (dict self) (tokenize stem query True))
      < length (tokenize stem query True)"
    by (rule length_map_filter_less)
  then show ?thesis by (simp add: search_def Let_def)
qed

lemma search_all_present:
  assumes "tokenize stem query True \<noteq> []"
    and "\<forall>t\<in>set (tokenize stem query True). dict self t \<noteq> None"
  shows "search stem self query =
     (Inr (sort_key sonnet_id
        (filter (\<lambda>doc. \<forall>t\<in>set (tokenize stem query True). \<exists>s. dict self t = Some s \<and> sonnet_id doc \<in> s)
           (documents self))), self)"
proof -
  let ?qs = "tokenize stem query True"
  let ?rel = "List.map_filter (dict self) ?qs"
  from assms(2) have rel: "?rel = map (\<lambda>x. the (dict self x)) ?qs"
    by (rule map_filter_all_present)
  with assms(1) have ne: "?rel \<noteq> []" and len: "\<not> length ?rel < length ?qs" by simp_all
  from ne have inter: "set_intersection ?rel = Inr (\<Inter> (set ?rel))"
    by (rule set_intersection_nonempty)
  have mem: "(\<forall>s\<in>set ?rel. i \<in> s) = (\<forall>t\<in>set ?qs. \<exists>s. dict self t = Some s \<and> i \<in> s)" for i
    using assms(2) by (simp add: rel) fastforce
  show ?thesis
    using assms(1) ne len by (simp add: search_def Let_def inter mem)
qed


text \<open>The equations that evaluate index construction on literals.\<close>

lemma char_eq_char_of: "(c = char_of (n::nat)) = (take_bit 8 n = of_char c)"
  using char_of_eq_iff [of n c] by auto

lemmas index_eval = Index_def add_def add_token_def Query_def char_eq_char_of

text \<open>
  C1. For every index and every query: if some token of the query (tokenized with
  stemming) is not a key of the index, \<open>search\<close> returns the empty list, whatever the
  posting sets of the other tokens are.
\<close>

theorem search_missing_token_empty:
  assumes "t \<in> set (tokenize stem query True)" and "dict self t = None"
  shows "fst (search stem self query) = Inr []"
  using assms by (simp add: search_missing)

text \<open>
  The query \<open>love hate\<close> against an index that has \<open>love\<close> with a non-empty posting
  set and lacks \<open>hate\<close>.
\<close>

theorem search_missing_token_empty_witness:
  "''hate'' \<in> set (tokenize (\<lambda>w i j. w) (Query ''love hate'') True)
   \<and> dict (Index (\<lambda>w i j. w) [\<lparr>lines = [''Fair is my love''], sonnet_id = 1, title = ''One''\<rparr>]) ''hate'' = None
   \<and> dict (Index (\<lambda>w i j. w) [\<lparr>lines = [''Fair is my love''], sonnet_id = 1, title = ''One''\<rparr>]) ''love'' = Some {1}
   \<and> fst (search (\<lambda>w i j. w) (Index (\<lambda>w i j. w) [\<lparr>lines = [''Fair is my love''], sonnet_id = 1, title = ''One''\<rparr>]) (Query ''love hate'')) = Inr []"
proof -
  have h1: "''hate'' \<in> set (tokenize (\<lambda>w i j. w) (Query ''love hate'') True)"
    by (simp add: Query_def tok_eval)
  have h2: "dict (Index (\<lambda>w i j. w) [\<lparr>lines = [''Fair is my love''], sonnet_id = 1, title = ''One''\<rparr>]) ''hate'' = None"
    by (simp add: index_eval tok_eval)
  have h3: "dict (Index (\<lambda>w i j. w) [\<lparr>lines = [''Fair is my love''], sonnet_id = 1, title = ''One''\<rparr>]) ''love'' = Some {1}"
    by (simp add: index_eval tok_eval)
  from h1 h2 h3 search_missing_token_empty [OF h1 h2] show ?thesis by simp
qed

text \<open>
  C3. After the index is built from a collection whose identifiers are pairwise distinct
  (the data model declares a document's id unique), for every token \<open>T\<close> and every
  document \<open>D\<close> of the collection: \<open>T\<close> is a key whose posting set holds the id of
  \<open>D\<close> if and only if \<open>T\<close> is among the stemmed tokens of \<open>D\<close>.
\<close>

theorem Index_posting_iff:
  assumes "distinct (map sonnet_id docs)" and "D \<in> set docs"
  shows "(\<exists>s. dict (Index stem docs) T = Some s \<and> sonnet_id D \<in> s)
     \<longleftrightarrow> T \<in> set (tokenize stem D True)"
proof
  assume "\<exists>s. dict (Index stem docs) T = Some s \<and> sonnet_id D \<in> s"
  then obtain d where d: "d \<in> set docs" "T \<in> set (tokenize stem d True)"
    and eq: "sonnet_id d = sonnet_id D"
    by (auto simp: dict_Index split: if_splits)
  from assms(1) have "inj_on sonnet_id (set docs)" by (simp add: distinct_map)
  from this eq d(1) assms(2) have "d = D" by (rule inj_onD)
  with d(2) show "T \<in> set (tokenize stem D True)" by simp
next
  assume "T \<in> set (tokenize stem D True)"
  with assms(2) show "\<exists>s. dict (Index stem docs) T = Some s \<and> sonnet_id D \<in> s"
    by (auto simp: dict_Index)
qed

text \<open>Two sonnets, one with the token \<open>love\<close> and one without.\<close>

theorem Index_posting_iff_witness:
  "distinct (map sonnet_id [\<lparr>lines = [''Fair is my love''], sonnet_id = 1, title = ''One''\<rparr>, \<lparr>lines = [''I hate''], sonnet_id = 2, title = ''Two''\<rparr>])
   \<and> (\<exists>s. dict (Index (\<lambda>w i j. w) [\<lparr>lines = [''Fair is my love''], sonnet_id = 1, title = ''One''\<rparr>, \<lparr>lines = [''I hate''], sonnet_id = 2, title = ''Two''\<rparr>]) ''love'' = Some s \<and> sonnet_id \<lparr>lines = [''Fair is my love''], sonnet_id = 1, title = ''One''\<rparr> \<in> s)
   \<and> ''love'' \<in> set (tokenize (\<lambda>w i j. w) \<lparr>lines = [''Fair is my love''], sonnet_id = 1, title = ''One''\<rparr> True)
   \<and> ''love'' \<notin> set (tokenize (\<lambda>w i j. w) \<lparr>lines = [''I hate''], sonnet_id = 2, title = ''Two''\<rparr> True)
   \<and> \<not> (\<exists>s. dict (Index (\<lambda>w i j. w) [\<lparr>lines = [''Fair is my love''], sonnet_id = 1, title = ''One''\<rparr>, \<lparr>lines = [''I hate''], sonnet_id = 2, title = ''Two''\<rparr>]) ''love'' = Some s \<and> sonnet_id \<lparr>lines = [''I hate''], sonnet_id = 2, title = ''Two''\<rparr> \<in> s)"
proof -
  have h: "distinct (map sonnet_id [\<lparr>lines = [''Fair is my love''], sonnet_id = 1, title = ''One''\<rparr>, \<lparr>lines = [''I hate''], sonnet_id = 2, title = ''Two''\<rparr>])" by simp
  have t1: "''love'' \<in> set (tokenize (\<lambda>w i j. w) \<lparr>lines = [''Fair is my love''], sonnet_id = 1, title = ''One''\<rparr> True)" by (simp add: tok_eval)
  have t2: "''love'' \<notin> set (tokenize (\<lambda>w i j. w) \<lparr>lines = [''I hate''], sonnet_id = 2, title = ''Two''\<rparr> True)" by (simp add: tok_eval)
  have m1: "\<lparr>lines = [''Fair is my love''], sonnet_id = 1, title = ''One''\<rparr> \<in> set [\<lparr>lines = [''Fair is my love''], sonnet_id = 1, title = ''One''\<rparr>, \<lparr>lines = [''I hate''], sonnet_id = 2, title = ''Two''\<rparr>]" by simp
  have m2: "\<lparr>lines = [''I hate''], sonnet_id = 2, title = ''Two''\<rparr> \<in> set [\<lparr>lines = [''Fair is my love''], sonnet_id = 1, title = ''One''\<rparr>, \<lparr>lines = [''I hate''], sonnet_id = 2, title = ''Two''\<rparr>]" by simp
  from h t1 t2 Index_posting_iff [OF h m1, of "\<lambda>w i j. w" "''love''"]
    Index_posting_iff [OF h m2, of "\<lambda>w i j. w" "''love''"]
  show ?thesis by blast
qed

text \<open>
  C4. A query whose tokens are the empty sequence makes \<open>search\<close> return the empty
  list without raising; the empty string and the string of three spaces are such queries,
  for every index and every stemmer.
\<close>

theorem search_empty_query:
  "(tokenize stem query True = [] \<longrightarrow> fst (search stem self query) = Inr [])
   \<and> fst (search stem self (Query '''')) = Inr []
   \<and> fst (search stem self (Query ''   '')) = Inr []"
  by (simp add: search_def Query_def tok_eval)

text \<open>The query of three spaces against a built index.\<close>

theorem search_empty_query_witness:
  "tokenize (\<lambda>w i j. w) (Query ''   '') True = []
   \<and> fst (search (\<lambda>w i j. w) (Index (\<lambda>w i j. w) [\<lparr>lines = [''Fair is my love''], sonnet_id = 1, title = ''One''\<rparr>]) (Query ''   '')) = Inr []"
proof -
  have h: "tokenize (\<lambda>w i j. w) (Query ''   '') True = []" by (simp add: Query_def tok_eval)
  with search_empty_query [of "\<lambda>w i j. w" "Query ''   ''" "Index (\<lambda>w i j. w) [\<lparr>lines = [''Fair is my love''], sonnet_id = 1, title = ''One''\<rparr>]"] show ?thesis by blast
qed

text \<open>
  C5. For every index and query \<open>search\<close> returns a list, and the list is sorted
  ascending by id. Three sonnets with the ids 7, 2, 19, indexed in that order and all
  matching the query, come back in the order 2, 7, 19.
\<close>

theorem search_sorted_by_id:
  "(\<exists>ds. fst (search stem self query) = Inr ds \<and> sorted (map sonnet_id ds))
   \<and> fst (search stem
         (Index stem
            [\<lparr>lines = [''love''], sonnet_id = 7, title = ''a''\<rparr>,
             \<lparr>lines = [''love''], sonnet_id = 2, title = ''b''\<rparr>,
             \<lparr>lines = [''love''], sonnet_id = 19, title = ''c''\<rparr>])
         (Query ''love''))
       = Inr [\<lparr>lines = [''love''], sonnet_id = 2, title = ''b''\<rparr>,
              \<lparr>lines = [''love''], sonnet_id = 7, title = ''a''\<rparr>,
              \<lparr>lines = [''love''], sonnet_id = 19, title = ''c''\<rparr>]"
proof (rule conjI)
  show "\<exists>ds. fst (search stem self query) = Inr ds \<and> sorted (map sonnet_id ds)"
  proof (cases "tokenize stem query True \<noteq> []
      \<and> (\<forall>t\<in>set (tokenize stem query True). dict self t \<noteq> None)")
    case True
    then show ?thesis by (simp add: search_all_present)
  next
    case False
    then have "fst (search stem self query) = Inr []"
      by (auto simp: search_missing) (simp add: search_def)
    then show ?thesis by simp
  qed
next
  show "fst (search stem
         (Index stem
            [\<lparr>lines = [''love''], sonnet_id = 7, title = ''a''\<rparr>,
             \<lparr>lines = [''love''], sonnet_id = 2, title = ''b''\<rparr>,
             \<lparr>lines = [''love''], sonnet_id = 19, title = ''c''\<rparr>])
         (Query ''love''))
       = Inr [\<lparr>lines = [''love''], sonnet_id = 2, title = ''b''\<rparr>,
              \<lparr>lines = [''love''], sonnet_id = 7, title = ''a''\<rparr>,
              \<lparr>lines = [''love''], sonnet_id = 19, title = ''c''\<rparr>]"
    by (simp add: search_def index_eval tok_eval List.map_filter_def)
qed

text \<open>
  C9. The index that \<open>search\<close> leaves behind is the index it was called on: dictionary
  and retained collection are unchanged.
\<close>

theorem search_leaves_index:
  "snd (search stem self query) = self"
  by (simp add: search_def Let_def split: sum.splits)


text \<open>
  C10. After the index is built, every key maps to a non-empty posting set, and every id
  in a posting set is the id of a document of the retained collection.
\<close>

theorem Index_postings_wellformed:
  assumes "dict (Index stem docs) T = Some s"
  shows "s \<noteq> {} \<and> (\<forall>i\<in>s. \<exists>d\<in>set (documents (Index stem docs)). sonnet_id d = i)"
  using assms by (auto simp: dict_Index documents_Index split: if_splits)

text \<open>The key \<open>love\<close> of an index over two sonnets.\<close>

theorem Index_postings_wellformed_witness:
  "dict (Index (\<lambda>w i j. w) [\<lparr>lines = [''Fair is my love''], sonnet_id = 1, title = ''One''\<rparr>, \<lparr>lines = [''I hate''], sonnet_id = 2, title = ''Two''\<rparr>]) ''love'' = Some {1}
   \<and> {1::int} \<noteq> {}
   \<and> (\<exists>d\<in>set (documents (Index (\<lambda>w i j. w) [\<lparr>lines = [''Fair is my love''], sonnet_id = 1, title = ''One''\<rparr>, \<lparr>lines = [''I hate''], sonnet_id = 2, title = ''Two''\<rparr>])). sonnet_id d = 1)"
proof -
  have h: "dict (Index (\<lambda>w i j. w) [\<lparr>lines = [''Fair is my love''], sonnet_id = 1, title = ''One''\<rparr>, \<lparr>lines = [''I hate''], sonnet_id = 2, title = ''Two''\<rparr>]) ''love'' = Some {1}"
    by (simp add: index_eval tok_eval)
  from h Index_postings_wellformed [OF h] show ?thesis by simp
qed

text \<open>
  C7. Building the index from a permutation of a collection yields the same dictionary
  from tokens to id sets.
\<close>

theorem Index_dict_order_independent:
  assumes "mset docs' = mset docs"
  shows "dict (Index stem docs') = dict (Index stem docs)"
proof
  fix t
  from assms have "set docs' = set docs" by (rule mset_eq_setD)
  then show "dict (Index stem docs') t = dict (Index stem docs) t"
    by (simp add: dict_Index)
qed

text \<open>Two sonnets in both orders.\<close>

theorem Index_dict_order_independent_witness:
  "mset [\<lparr>lines = [''I hate''], sonnet_id = 2, title = ''Two''\<rparr>, \<lparr>lines = [''Fair is my love''], sonnet_id = 1, title = ''One''\<rparr>] = mset [\<lparr>lines = [''Fair is my love''], sonnet_id = 1, title = ''One''\<rparr>, \<lparr>lines = [''I hate''], sonnet_id = 2, title = ''Two''\<rparr>]
   \<and> dict (Index (\<lambda>w i j. w) [\<lparr>lines = [''I hate''], sonnet_id = 2, title = ''Two''\<rparr>, \<lparr>lines = [''Fair is my love''], sonnet_id = 1, title = ''One''\<rparr>]) = dict (Index (\<lambda>w i j. w) [\<lparr>lines = [''Fair is my love''], sonnet_id = 1, title = ''One''\<rparr>, \<lparr>lines = [''I hate''], sonnet_id = 2, title = ''Two''\<rparr>])"
proof -
  have h: "mset [\<lparr>lines = [''I hate''], sonnet_id = 2, title = ''Two''\<rparr>, \<lparr>lines = [''Fair is my love''], sonnet_id = 1, title = ''One''\<rparr>] = mset [\<lparr>lines = [''Fair is my love''], sonnet_id = 1, title = ''One''\<rparr>, \<lparr>lines = [''I hate''], sonnet_id = 2, title = ''Two''\<rparr>]" by simp
  from h Index_dict_order_independent [OF h] show ?thesis by simp
qed

text \<open>
  On a built index with distinct ids a query that has tokens is answered by the documents
  holding all its tokens, sorted by id; this needs no assumption on the keys, since a
  token that is no key occurs in no document.
\<close>

lemma search_Index:
  assumes "distinct (map sonnet_id docs)" and "tokenize stem query True \<noteq> []"
  shows "fst (search stem (Index stem docs) query) =
     Inr (sort_key sonnet_id
            (filter (\<lambda>d. set (tokenize stem query True) \<subseteq> set (tokenize stem d True)) docs))"
proof (cases "\<forall>t\<in>set (tokenize stem query True). dict (Index stem docs) t \<noteq> None")
  case True
  from assms(1) have inj: "inj_on sonnet_id (set docs)" by (simp add: distinct_map)
  have "(\<forall>t\<in>set (tokenize stem query True).
            \<exists>s. dict (Index stem docs) t = Some s \<and> sonnet_id d \<in> s)
        = (set (tokenize stem query True) \<subseteq> set (tokenize stem d True))"
    if d: "d \<in> set docs" for d
  proof -
    have "(\<exists>s. dict (Index stem docs) t = Some s \<and> sonnet_id d \<in> s)
        = (t \<in> set (tokenize stem d True))" for t
    proof
      assume "\<exists>s. dict (Index stem docs) t = Some s \<and> sonnet_id d \<in> s"
      then obtain d' where d': "d' \<in> set docs" "t \<in> set (tokenize stem d' True)"
        and eq: "sonnet_id d' = sonnet_id d"
        by (auto simp: dict_Index split: if_splits)
      from inj eq d'(1) d have "d' = d" by (rule inj_onD)
      with d'(2) show "t \<in> set (tokenize stem d True)" by simp
    next
      assume "t \<in> set (tokenize stem d True)"
      with d show "\<exists>s. dict (Index stem docs) t = Some s \<and> sonnet_id d \<in> s"
        by (auto simp: dict_Index)
    qed
    then show ?thesis by auto
  qed
  then have "filter (\<lambda>d. \<forall>t\<in>set (tokenize stem query True).
            \<exists>s. dict (Index stem docs) t = Some s \<and> sonnet_id d \<in> s) docs
      = filter (\<lambda>d. set (tokenize stem query True) \<subseteq> set (tokenize stem d True)) docs"
    by (intro filter_cong refl)
  with assms(2) True show ?thesis
    by (simp add: search_all_present documents_Index)
next
  case False
  then obtain t where t: "t \<in> set (tokenize stem query True)"
    and none: "dict (Index stem docs) t = None"
    by auto
  from none have "\<forall>d\<in>set docs. t \<notin> set (tokenize stem d True)"
    by (auto simp: dict_Index split: if_splits)
  with t have "filter (\<lambda>d. set (tokenize stem query True) \<subseteq> set (tokenize stem d True)) docs = []"
    by (auto simp: filter_empty_conv)
  with t none show ?thesis by (simp add: search_missing)
qed

text \<open>
  C2 (as amended). For an index built from a collection with pairwise distinct ids and a
  query that has at least one stemmed token, all of them keys of the index, \<open>search\<close>
  returns exactly the documents of the collection whose stemmed tokens contain every
  stemmed query token, sorted by id; these are the documents whose id lies in every query
  token's posting set.
\<close>

theorem search_conjunctive:
  assumes "distinct (map sonnet_id docs)"
    and "tokenize stem query True \<noteq> []"
    and "\<forall>t\<in>set (tokenize stem query True). dict (Index stem docs) t \<noteq> None"
  shows "fst (search stem (Index stem docs) query) =
     Inr (sort_key sonnet_id
            (filter (\<lambda>d. set (tokenize stem query True) \<subseteq> set (tokenize stem d True)) docs))
    \<and> fst (search stem (Index stem docs) query) =
     Inr (sort_key sonnet_id
            (filter (\<lambda>d. \<forall>t\<in>set (tokenize stem query True).
                \<exists>s. dict (Index stem docs) t = Some s \<and> sonnet_id d \<in> s) docs))"
proof (rule conjI)
  from assms(1,2) show "fst (search stem (Index stem docs) query) =
     Inr (sort_key sonnet_id
            (filter (\<lambda>d. set (tokenize stem query True) \<subseteq> set (tokenize stem d True)) docs))"
    by (rule search_Index)
next
  from assms(2,3) show "fst (search stem (Index stem docs) query) =
     Inr (sort_key sonnet_id
            (filter (\<lambda>d. \<forall>t\<in>set (tokenize stem query True).
                \<exists>s. dict (Index stem docs) t = Some s \<and> sonnet_id d \<in> s) docs))"
    by (simp add: search_all_present documents_Index)
qed

text \<open>
  The round trip of the specification: the line \<open>Fair is my love\<close>, queried with
  \<open>fair love\<close>, next to a sonnet that matches neither word.
\<close>

theorem search_conjunctive_witness:
  "distinct (map sonnet_id [\<lparr>lines = [''I hate''], sonnet_id = 2, title = ''Two''\<rparr>, \<lparr>lines = [''Fair is my love''], sonnet_id = 1, title = ''One''\<rparr>])
   \<and> tokenize (\<lambda>w i j. w) (Query ''fair love'') True = [''fair'', ''love'']
   \<and> dict (Index (\<lambda>w i j. w) [\<lparr>lines = [''I hate''], sonnet_id = 2, title = ''Two''\<rparr>, \<lparr>lines = [''Fair is my love''], sonnet_id = 1, title = ''One''\<rparr>]) ''fair'' = Some {1}
   \<and> dict (Index (\<lambda>w i j. w) [\<lparr>lines = [''I hate''], sonnet_id = 2, title = ''Two''\<rparr>, \<lparr>lines = [''Fair is my love''], sonnet_id = 1, title = ''One''\<rparr>]) ''love'' = Some {1}
   \<and> fst (search (\<lambda>w i j. w) (Index (\<lambda>w i j. w) [\<lparr>lines = [''I hate''], sonnet_id = 2, title = ''Two''\<rparr>, \<lparr>lines = [''Fair is my love''], sonnet_id = 1, title = ''One''\<rparr>]) (Query ''fair love'')) = Inr [\<lparr>lines = [''Fair is my love''], sonnet_id = 1, title = ''One''\<rparr>]"
proof -
  have h1: "distinct (map sonnet_id [\<lparr>lines = [''I hate''], sonnet_id = 2, title = ''Two''\<rparr>, \<lparr>lines = [''Fair is my love''], sonnet_id = 1, title = ''One''\<rparr>])" by simp
  have q: "tokenize (\<lambda>w i j. w) (Query ''fair love'') True = [''fair'', ''love'']"
    by (simp add: Query_def tok_eval)
  have f: "dict (Index (\<lambda>w i j. w) [\<lparr>lines = [''I hate''], sonnet_id = 2, title = ''Two''\<rparr>, \<lparr>lines = [''Fair is my love''], sonnet_id = 1, title = ''One''\<rparr>]) ''fair'' = Some {1}"
    by (simp add: index_eval tok_eval)
  have l: "dict (Index (\<lambda>w i j. w) [\<lparr>lines = [''I hate''], sonnet_id = 2, title = ''Two''\<rparr>, \<lparr>lines = [''Fair is my love''], sonnet_id = 1, title = ''One''\<rparr>]) ''love'' = Some {1}"
    by (simp add: index_eval tok_eval)
  from q have h2: "tokenize (\<lambda>w i j. w) (Query ''fair love'') True \<noteq> []" by simp
  from q f l have h3: "\<forall>t\<in>set (tokenize (\<lambda>w i j. w) (Query ''fair love'') True).
      dict (Index (\<lambda>w i j. w) [\<lparr>lines = [''I hate''], sonnet_id = 2, title = ''Two''\<rparr>, \<lparr>lines = [''Fair is my love''], sonnet_id = 1, title = ''One''\<rparr>]) t \<noteq> None" by simp
  have d1: "tokenize (\<lambda>w i j. w) \<lparr>lines = [''Fair is my love''], sonnet_id = 1, title = ''One''\<rparr> True = [''fair'', ''is'', ''my'', ''love'']"
    by (simp add: tok_eval)
  have d2: "tokenize (\<lambda>w i j. w) \<lparr>lines = [''I hate''], sonnet_id = 2, title = ''Two''\<rparr> True = [''i'', ''hate'']"
    by (simp add: tok_eval)
  from search_conjunctive [OF h1 h2 h3]
  have "fst (search (\<lambda>w i j. w) (Index (\<lambda>w i j. w) [\<lparr>lines = [''I hate''], sonnet_id = 2, title = ''Two''\<rparr>, \<lparr>lines = [''Fair is my love''], sonnet_id = 1, title = ''One''\<rparr>]) (Query ''fair love'')) = Inr [\<lparr>lines = [''Fair is my love''], sonnet_id = 1, title = ''One''\<rparr>]"
    by (simp add: q d1 d2)
  with h1 q f l show ?thesis by simp
qed

text \<open>
  C2 as the claim words it fails at the empty query: it has no token, so all its tokens
  are keys and the one sonnet of the collection contains every one of them, yet
  \<open>search\<close> returns the empty list.
\<close>

theorem search_conjunctive_counterexample:
  "tokenize (\<lambda>w i j. w) (Query '''') True = []
   \<and> fst (search (\<lambda>w i j. w) (Index (\<lambda>w i j. w) [\<lparr>lines = [''Fair is my love''], sonnet_id = 1, title = ''One''\<rparr>]) (Query '''')) = Inr []
   \<and> sort_key sonnet_id
        (filter (\<lambda>d. set (tokenize (\<lambda>w i j. w) (Query '''') True) \<subseteq> set (tokenize (\<lambda>w i j. w) d True)) [\<lparr>lines = [''Fair is my love''], sonnet_id = 1, title = ''One''\<rparr>])
      = [\<lparr>lines = [''Fair is my love''], sonnet_id = 1, title = ''One''\<rparr>]"
  by (simp add: search_def Query_def tok_eval)


end
